theory Spec2Isabelle
  imports Complex_Main
begin

section \<open>The molecule file downloader (Antiviral\_Compounds\_Download.py)\<close>

text \<open>
  The script reads one URL from every \<open>.txt\<close> link file of a directory, downloads it
  with retries to \<open>{compound_id}.mol\<close>, validates the file and writes a three-line
  summary. The model below follows the three functions \<open>download_molecule\<close>,
  \<open>process_link_file\<close> and \<open>main\<close> statement by statement.

  What lies outside the script is made explicit:
  \<^item> the file system is a map from paths to file contents (plus a set of directories);
  \<^item> the network and the random number generator are a \<open>world\<close>: for every URL and
    every value of the \<open>retries\<close> parameter it fixes what \<open>requests.get\<close> does, the
    value drawn by \<open>random.uniform(*REQUEST_DELAY)\<close> and the value drawn by
    \<open>random.random()\<close>;
  \<^item> every \<open>time.sleep\<close> and every \<open>requests.get\<close> is recorded in a trace, so that
    the number of attempts and the waits of a run can be read off the final state;
  \<^item> exceptions are values: a computation returns \<open>Inl e\<close> when the Python code raises
    and \<open>Inr v\<close> when it returns \<open>v\<close>. Only subclasses of \<open>Exception\<close> are
    modelled (the handlers of the script do not catch \<open>KeyboardInterrupt\<close> or
    \<open>SystemExit\<close>).
  Sleep durations are real numbers; the rounding of Python floats is not modelled.
  Logging calls have no effect on the result and are left out.
\<close>

subsection \<open>Configuration\<close>

definition bslash :: char where
  "bslash = CHR 0x5C"

definition LINKS_DIRECTORY :: string where
  "LINKS_DIRECTORY = ''F:'' @ [bslash] @ ''D'' @ [bslash] @ ''HARI PRASAD'' @ [bslash]
     @ ''VIRAL-TARGETS-SuperNaturalDatabase''"

definition OUTPUT_DIRECTORY :: string where
  "OUTPUT_DIRECTORY = ''F:'' @ [bslash] @ ''D'' @ [bslash] @ ''HARI PRASAD'' @ [bslash]
     @ ''VIRAL-TARGETS-SuperNaturalDatabase''"

definition MAX_RETRIES :: nat where
  "MAX_RETRIES = 3"

subsection \<open>Exceptions, responses, events, state\<close>

datatype exn = RequestException | OtherException

text \<open>
  One call of \<open>requests.get\<close> followed by the iteration over the body. \<open>GetRaises e\<close>:
  the call raises. \<open>Response code chunks ending\<close>: the call returns a response with
  status \<open>code\<close>; \<open>iter_content\<close> yields \<open>chunks\<close> in order and then either
  stops (\<open>None\<close>) or raises (\<open>Some e\<close>, for instance a broken connection in the
  middle of the body).
\<close>

datatype attempt = GetRaises exn | Response int "string list" "exn option"

datatype event = Sleep real | Get string

record state =
  files :: "string \<rightharpoonup> string"
  dirs :: "string set"
  trace :: "event list"

record world =
  respond :: "string \<Rightarrow> nat \<Rightarrow> attempt"
  delay :: "string \<Rightarrow> nat \<Rightarrow> real"
  jitter :: "string \<Rightarrow> nat \<Rightarrow> real"
  writable :: "string \<Rightarrow> bool"
  listdir :: "string \<Rightarrow> string list option"

text \<open>
  \<open>writable w p\<close> says whether \<open>open(p, 'w')\<close> or \<open>open(p, 'wb')\<close> succeeds;
  \<open>listdir w d\<close> is the result of \<open>os.listdir(d)\<close>, \<open>None\<close> when it raises. The
  other file system calls (\<open>os.path.exists\<close>, \<open>os.path.getsize\<close>, \<open>os.remove\<close>
  of an existing file, \<open>os.makedirs\<close>) are taken to succeed, and a destination path is
  taken not to be a directory.
\<close>

definition sleep :: "real \<Rightarrow> state \<Rightarrow> state" where
  "sleep d s = s\<lparr>trace := trace s @ [Sleep d]\<rparr>"

definition request :: "string \<Rightarrow> state \<Rightarrow> state" where
  "request url s = s\<lparr>trace := trace s @ [Get url]\<rparr>"

subsection \<open>Paths and strings (the library functions the script calls)\<close>

text \<open>
  The configured directories are Windows paths, so \<open>os.path\<close> is \<open>ntpath\<close>: both
  slashes separate components and a leading drive letter with its colon is not part of
  the base name. \<open>os.path.join\<close> is applied only to a configured directory and a plain
  file name, where it puts one backslash between the two. UNC prefixes are not modelled.
\<close>

definition is_sep :: "char \<Rightarrow> bool" where
  "is_sep c = (c = bslash \<or> c = CHR ''/'')"

definition path_join :: "string \<Rightarrow> string \<Rightarrow> string" where
  "path_join d f = d @ [bslash] @ f"

definition drop_drive :: "string \<Rightarrow> string" where
  "drop_drive p = (if 2 \<le> length p \<and> p ! 1 = CHR '':'' then drop 2 p else p)"

definition basename :: "string \<Rightarrow> string" where
  "basename p = rev (takeWhile (\<lambda>c. \<not> is_sep c) (rev (drop_drive p)))"

text \<open>
  \<open>os.path.splitext(name)[0]\<close> for a name without separators: the part before the last
  dot, unless the name has no dot or only dots precede the last dot.
\<close>

definition splitext_root :: "string \<Rightarrow> string" where
  "splitext_root name =
     (if CHR ''.'' \<in> set name then
        (let root = rev (tl (dropWhile (\<lambda>c. c \<noteq> CHR ''.'') (rev name)))
         in if list_ex (\<lambda>c. c \<noteq> CHR ''.'') root then root else name)
      else name)"

text \<open>
  The content stored for a link file is the text that \<open>f.read()\<close> returns, one
  \<open>char\<close> per character, the \<open>char\<close> with number \<open>n\<close> standing for the code point
  \<open>n\<close>; characters above U+00FF are outside the model. \<open>str.strip()\<close> removes the
  characters for which \<open>str.isspace()\<close> holds: below U+0100 these are U+0009 to U+000D,
  U+001C to U+001F, U+0020, U+0085 and U+00A0.
\<close>

definition is_space :: "char \<Rightarrow> bool" where
  "is_space c = (c \<in> set [CHR 0x09, CHR 0x0A, CHR 0x0B, CHR 0x0C, CHR 0x0D,
                           CHR 0x1C, CHR 0x1D, CHR 0x1E, CHR 0x1F, CHR 0x20,
                           CHR 0x85, CHR 0xA0])"

definition strip :: "string \<Rightarrow> string" where
  "strip t = rev (dropWhile is_space (rev (dropWhile is_space t)))"

definition endswith :: "string \<Rightarrow> string \<Rightarrow> bool" where
  "endswith t suf = (length suf \<le> length t \<and> drop (length t - length suf) t = suf)"

definition digit_char :: "nat \<Rightarrow> char" where
  "digit_char d = ''0123456789'' ! d"

fun str_nat :: "nat \<Rightarrow> string" where
  "str_nat n = (if n < 10 then [digit_char n] else str_nat (n div 10) @ [digit_char (n mod 10)])"

subsection \<open>File system calls\<close>

definition path_exists :: "state \<Rightarrow> string \<Rightarrow> bool" where
  "path_exists s p = (files s p \<noteq> None)"

definition isfile :: "state \<Rightarrow> string \<Rightarrow> bool" where
  "isfile s p = (files s p \<noteq> None)"

definition getsize :: "state \<Rightarrow> string \<Rightarrow> nat" where
  "getsize s p = (case files s p of None \<Rightarrow> 0 | Some c \<Rightarrow> length c)"

definition remove :: "string \<Rightarrow> state \<Rightarrow> state" where
  "remove p s = s\<lparr>files := (files s)(p := None)\<rparr>"

definition ensure_directory_exists :: "string \<Rightarrow> state \<Rightarrow> state" where
  "ensure_directory_exists directory s =
     (if \<not> (files s directory \<noteq> None \<or> directory \<in> dirs s)
      then s\<lparr>dirs := insert directory (dirs s)\<rparr>
      else s)"

subsection \<open>download\_molecule\<close>

text \<open>
  The loop \<open>for chunk in response.iter_content(...): if chunk: f.write(chunk)\<close>,
  as the content the file has after the chunks were written.
\<close>

fun write_chunks :: "string list \<Rightarrow> string \<Rightarrow> string" where
  "write_chunks [] buf = buf"
| "write_chunks (c # cs) buf = write_chunks cs (if c \<noteq> [] then buf @ c else buf)"

text \<open>
  The branch \<open>status_code == 200\<close>: \<open>open(output_path, 'wb')\<close> either raises
  (an \<open>OSError\<close>, which is not a \<open>RequestException\<close>) or truncates the file; the
  chunks received are written; the iteration ends or raises.
\<close>

definition save_body ::
  "world \<Rightarrow> string \<Rightarrow> string list \<Rightarrow> exn option \<Rightarrow> state \<Rightarrow> (exn + bool) \<times> state" where
  "save_body w output_path chunks ending s =
     (if \<not> writable w output_path then (Inl OtherException, s)
      else let s1 = s\<lparr>files := (files s)(output_path \<mapsto> write_chunks chunks [])\<rparr>
           in case ending of None \<Rightarrow> (Inr True, s1) | Some e \<Rightarrow> (Inl e, s1))"

text \<open>
  The inner \<open>case\<close> is the body of the \<open>try\<close> block, the outer one the two
  \<open>except\<close> clauses. The recursive call of the \<open>else\<close> branch is inside the
  \<open>try\<close> block, as in the source; the recursive call of the first handler is not.
\<close>

function download_molecule ::
  "world \<Rightarrow> string \<Rightarrow> string \<Rightarrow> nat \<Rightarrow> state \<Rightarrow> (exn + bool) \<times> state" where
  "download_molecule w url output_path retries s =
     (let s1 = request url (sleep (delay w url retries) s) in
      case (case respond w url retries of
              GetRaises e \<Rightarrow> (Inl e, s1)
            | Response code chunks ending \<Rightarrow>
                if code = 200 then save_body w output_path chunks ending s1
                else if retries < MAX_RETRIES
                  then download_molecule w url output_path (retries + 1)
                         (sleep (2 ^ retries + jitter w url retries) s1)
                  else (Inr False, s1))
      of (Inr b, s2) \<Rightarrow> (Inr b, s2)
       | (Inl RequestException, s2) \<Rightarrow>
           if retries < MAX_RETRIES
           then download_molecule w url output_path (retries + 1)
                  (sleep (2 ^ retries + jitter w url retries) s2)
           else (Inr False, s2)
       | (Inl OtherException, s2) \<Rightarrow> (Inr False, s2))"
  by pat_completeness auto
termination
  by (relation "measure (\<lambda>(w, url, output_path, retries, s). MAX_RETRIES - retries)") auto

declare download_molecule.simps [simp del]

subsection \<open>process\_link\_file\<close>

definition output_path_of :: "string \<Rightarrow> string" where
  "output_path_of file_path =
     path_join OUTPUT_DIRECTORY (splitext_root (basename file_path) @ ''.mol'')"

text \<open>The body of the \<open>try\<close> block of \<open>process_link_file\<close>.\<close>

definition process_link_file_try ::
  "world \<Rightarrow> string \<Rightarrow> state \<Rightarrow> (exn + string \<times> bool) \<times> state" where
  "process_link_file_try w file_path s =
     (let file_name = basename file_path;
          compound_id = splitext_root file_name
      in case files s file_path of
           None \<Rightarrow> (Inl OtherException, s)
         | Some content \<Rightarrow>
             let url = strip content in
             if url = [] then (Inr (compound_id, False), s)
             else
               let output_path = path_join OUTPUT_DIRECTORY (compound_id @ ''.mol'')
               in case download_molecule w url output_path 0 s of
                    (Inl e, s1) \<Rightarrow> (Inl e, s1)
                  | (Inr success, s1) \<Rightarrow>
                      if success \<and> path_exists s1 output_path \<and> getsize s1 output_path > 0
                      then (Inr (compound_id, True), s1)
                      else if path_exists s1 output_path \<and> getsize s1 output_path = 0
                        then (Inr (compound_id, False), remove output_path s1)
                        else (Inr (compound_id, False), s1))"

definition process_link_file ::
  "world \<Rightarrow> string \<Rightarrow> state \<Rightarrow> (exn + string \<times> bool) \<times> state" where
  "process_link_file w file_path s =
     (case process_link_file_try w file_path s of
        (Inl e, s1) \<Rightarrow> (Inr (basename file_path, False), s1)
      | (Inr r, s1) \<Rightarrow> (Inr r, s1))"

subsection \<open>main\<close>

text \<open>
  The worker pool is modelled by running the link files one after the other, in the
  order of the list: the loop over \<open>as_completed\<close> sees the result of every future
  exactly once, in some order, and only adds to one of two counters.

  \<open>main\<close> returns nothing. The model returns which of its three exits was taken, and
  for the last one the three numbers it logs and writes.
\<close>

datatype run_report = SetupError | NoLinkFiles | Completed nat nat nat

definition summary_path :: string where
  "summary_path = path_join OUTPUT_DIRECTORY ''download_summary.txt''"

definition summary_text :: "nat \<Rightarrow> nat \<Rightarrow> nat \<Rightarrow> string" where
  "summary_text total_files successful_downloads failed_downloads =
     ''Total files processed: '' @ str_nat total_files @ [CHR 0x0A]
     @ ''Successfully downloaded: '' @ str_nat successful_downloads @ [CHR 0x0A]
     @ ''Failed downloads: '' @ str_nat failed_downloads @ [CHR 0x0A]"

definition link_files_of :: "state \<Rightarrow> string list \<Rightarrow> string list" where
  "link_files_of s names =
     map (path_join LINKS_DIRECTORY)
       (filter (\<lambda>f. endswith f ''.txt'' \<and> isfile s (path_join LINKS_DIRECTORY f)) names)"

fun collect :: "world \<Rightarrow> string list \<Rightarrow> nat \<times> nat \<times> state \<Rightarrow> nat \<times> nat \<times> state" where
  "collect w [] acc = acc"
| "collect w (file_path # rest) (successful_downloads, failed_downloads, s) =
     (case process_link_file w file_path s of
        (Inr (compound_id, success), s1) \<Rightarrow>
          if success then collect w rest (successful_downloads + 1, failed_downloads, s1)
          else collect w rest (successful_downloads, failed_downloads + 1, s1)
      | (Inl e, s1) \<Rightarrow> collect w rest (successful_downloads, failed_downloads + 1, s1))"

definition write_summary :: "world \<Rightarrow> nat \<Rightarrow> nat \<Rightarrow> nat \<Rightarrow> state \<Rightarrow> state" where
  "write_summary w total_files successful_downloads failed_downloads s =
     (if writable w summary_path
      then s\<lparr>files := (files s)(summary_path \<mapsto>
               summary_text total_files successful_downloads failed_downloads)\<rparr>
      else s)"

definition main :: "world \<Rightarrow> state \<Rightarrow> run_report \<times> state" where
  "main w s0 =
     (let s = ensure_directory_exists OUTPUT_DIRECTORY s0 in
      case listdir w LINKS_DIRECTORY of
        None \<Rightarrow> (SetupError, s)
      | Some names \<Rightarrow>
          let link_files = link_files_of s names;
              total_files = length link_files
          in if total_files = 0 then (NoLinkFiles, s)
             else case collect w link_files (0, 0, s) of
                    (successful_downloads, failed_downloads, s1) \<Rightarrow>
                      (Completed total_files successful_downloads failed_downloads,
                       write_summary w total_files successful_downloads failed_downloads s1))"

subsection \<open>Reading a run off the trace\<close>

fun is_get :: "event \<Rightarrow> bool" where
  "is_get (Get url) = True"
| "is_get (Sleep d) = False"

definition attempts_made :: "event list \<Rightarrow> nat" where
  "attempts_made evs = length (filter is_get evs)"

fun total_sleep :: "event list \<Rightarrow> real" where
  "total_sleep [] = 0"
| "total_sleep (Sleep d # evs) = d + total_sleep evs"
| "total_sleep (Get url # evs) = total_sleep evs"

text \<open>
  The results the loop over the futures sees, one per link file: the file's path and
  whether it was counted as a success (a future that raised is counted as a failure).
\<close>

fun outcomes :: "world \<Rightarrow> string list \<Rightarrow> state \<Rightarrow> (string \<times> bool) list" where
  "outcomes w [] s = []"
| "outcomes w (file_path # rest) s =
     (case process_link_file w file_path s of
        (r, s1) \<Rightarrow>
          (file_path, (case r of Inr (compound_id, success) \<Rightarrow> success | Inl e \<Rightarrow> False))
          # outcomes w rest s1)"

text \<open>
  An attempt that is retried without having touched the destination: \<open>requests.get\<close>
  raised a \<open>RequestException\<close>, or returned a status other than 200.
\<close>

fun fails_transiently :: "attempt \<Rightarrow> bool" where
  "fails_transiently (GetRaises e) = (e = RequestException)"
| "fails_transiently (Response code chunks ending) = (code \<noteq> 200)"

fun got_200 :: "attempt \<Rightarrow> bool" where
  "got_200 (GetRaises e) = False"
| "got_200 (Response code chunks ending) = (code = 200)"

text \<open>
  The events of \<open>k\<close> retried attempts, the first of them made with \<open>retries = r\<close>:
  the polite delay, the request, the backoff wait.
\<close>

fun retry_events :: "world \<Rightarrow> string \<Rightarrow> nat \<Rightarrow> nat \<Rightarrow> event list" where
  "retry_events w url r 0 = []"
| "retry_events w url r (Suc k) =
     [Sleep (delay w url r), Get url, Sleep (2 ^ r + jitter w url r)]
     @ retry_events w url (Suc r) k"

definition retry_or_fail ::
  "world \<Rightarrow> string \<Rightarrow> string \<Rightarrow> nat \<Rightarrow> state \<Rightarrow> (exn + bool) \<times> state" where
  "retry_or_fail w url output_path retries s =
     (if retries < MAX_RETRIES
      then download_molecule w url output_path (retries + 1)
             (sleep (2 ^ retries + jitter w url retries) s)
      else (Inr False, s))"

subsection \<open>Example worlds and states\<close>

definition const_world :: "attempt \<Rightarrow> world" where
  "const_world a =
     \<lparr>respond = (\<lambda>url k. a), delay = (\<lambda>url k. 1), jitter = (\<lambda>url k. 1 / 2),
      writable = (\<lambda>p. True), listdir = (\<lambda>d. Some [])\<rparr>"

definition seq_world :: "attempt list \<Rightarrow> attempt \<Rightarrow> world" where
  "seq_world as a =
     \<lparr>respond = (\<lambda>url k. if k < length as then as ! k else a), delay = (\<lambda>url k. 1),
      jitter = (\<lambda>url k. 1 / 2), writable = (\<lambda>p. True), listdir = (\<lambda>d. Some [])\<rparr>"

definition listing_world :: "string list option \<Rightarrow> attempt \<Rightarrow> world" where
  "listing_world names a =
     \<lparr>respond = (\<lambda>url k. a), delay = (\<lambda>url k. 1), jitter = (\<lambda>url k. 1 / 2),
      writable = (\<lambda>p. True), listdir = (\<lambda>d. names)\<rparr>"

definition unwritable_world :: "attempt \<Rightarrow> world" where
  "unwritable_world a =
     \<lparr>respond = (\<lambda>url k. a), delay = (\<lambda>url k. 1), jitter = (\<lambda>url k. 1 / 2),
      writable = (\<lambda>p. False), listdir = (\<lambda>d. Some [])\<rparr>"

definition no_files :: state where
  "no_files = \<lparr>files = Map.empty, dirs = {}, trace = []\<rparr>"

definition one_link :: "string \<Rightarrow> string \<Rightarrow> state" where
  "one_link file_path content = \<lparr>files = [file_path \<mapsto> content], dirs = {}, trace = []\<rparr>"

definition with_artifact :: "string \<Rightarrow> string \<Rightarrow> string \<Rightarrow> state" where
  "with_artifact file_path content old =
     \<lparr>files = [output_path_of file_path \<mapsto> old, file_path \<mapsto> content],
      dirs = {}, trace = []\<rparr>"

section \<open>Properties of download\_molecule\<close>

lemma write_chunks_concat: "write_chunks chunks buf = buf @ concat chunks"
  by (induction chunks arbitrary: buf) auto

text \<open>No exception leaves \<open>download_molecule\<close>, whatever the world does.\<close>

lemma download_molecule_returns:
  "\<exists>b. fst (download_molecule w url p retries s) = Inr b"
proof (induction "MAX_RETRIES - retries" arbitrary: retries s)
  case 0
  then have "\<not> retries < MAX_RETRIES" by simp
  then show ?case
    by (subst download_molecule.simps)
       (auto simp: Let_def save_body_def
             split: attempt.splits prod.splits sum.splits exn.splits option.splits)
next
  case (Suc n)
  then have IH: "\<And>s'. \<exists>b. fst (download_molecule w url p (retries + 1) s') = Inr b"
    by simp
  let ?s1 = "request url (sleep (delay w url retries) s)"
  let ?body = "case respond w url retries of
              GetRaises e \<Rightarrow> (Inl e, ?s1)
            | Response code chunks ending \<Rightarrow>
                if code = 200 then save_body w p chunks ending ?s1
                else if retries < MAX_RETRIES
                  then download_molecule w url p (retries + 1)
                         (sleep (2 ^ retries + jitter w url retries) ?s1)
                  else (Inr False, ?s1)"
  obtain r s2 where X: "?body = (r, s2)" by (cases ?body)
  have D: "download_molecule w url p retries s =
    (case (r, s2) of (Inr b, s2) \<Rightarrow> (Inr b, s2)
       | (Inl RequestException, s2) \<Rightarrow>
           if retries < MAX_RETRIES
           then download_molecule w url p (retries + 1)
                  (sleep (2 ^ retries + jitter w url retries) s2)
           else (Inr False, s2)
       | (Inl OtherException, s2) \<Rightarrow> (Inr False, s2))"
    by (subst download_molecule.simps) (simp only: Let_def X)
  show ?case
  proof (cases r)
    case (Inr b)
    then show ?thesis by (simp add: D)
  next
    case (Inl e)
    then show ?thesis using IH by (cases e) (auto simp add: D)
  qed
qed

text \<open>
  So the handlers never see an exception of the recursive call, and one call of
  \<open>download_molecule\<close> is one attempt followed by a retry, a failure or a success.
\<close>

lemma download_molecule_unfold:
  "download_molecule w url p retries s =
     (let s1 = request url (sleep (delay w url retries) s) in
      case respond w url retries of
        GetRaises RequestException \<Rightarrow> retry_or_fail w url p retries s1
      | GetRaises OtherException \<Rightarrow> (Inr False, s1)
      | Response code chunks ending \<Rightarrow>
          if code = 200 then
            (case save_body w p chunks ending s1 of
               (Inr b, s2) \<Rightarrow> (Inr b, s2)
             | (Inl RequestException, s2) \<Rightarrow> retry_or_fail w url p retries s2
             | (Inl OtherException, s2) \<Rightarrow> (Inr False, s2))
          else retry_or_fail w url p retries s1)"
proof -
  have R: "\<And>s'. \<exists>b. fst (download_molecule w url p (retries + 1) s') = Inr b"
    by (rule download_molecule_returns)
  have K: "\<And>s'. (case download_molecule w url p (retries + 1) s' of
       (Inr b, s2) \<Rightarrow> (Inr b, s2)
       | (Inl RequestException, s2) \<Rightarrow>
           if retries < MAX_RETRIES
           then download_molecule w url p (retries + 1)
                  (sleep (2 ^ retries + jitter w url retries) s2)
           else (Inr False, s2)
       | (Inl OtherException, s2) \<Rightarrow> (Inr False, s2))
     = download_molecule w url p (retries + 1) s'"
  proof -
    fix s'
    obtain r t where E: "download_molecule w url p (retries + 1) s' = (r, t)"
      by (cases "download_molecule w url p (retries + 1) s'")
    with R[of s'] obtain b where "r = Inr b" by auto
    with E show "?thesis s'" by simp
  qed
  show ?thesis
  proof (cases "respond w url retries")
    case (GetRaises e)
    then show ?thesis
      by (subst download_molecule.simps) (cases e; simp add: Let_def retry_or_fail_def)
  next
    case (Response code chunks ending)
    show ?thesis
    proof (cases "code = 200")
      case True
      with Response show ?thesis
        by (subst download_molecule.simps)
           (simp add: Let_def retry_or_fail_def split: prod.splits sum.splits exn.splits)
    next
      case False
      with Response K show ?thesis
        by (subst download_molecule.simps) (simp add: Let_def retry_or_fail_def)
    qed
  qed
qed

section \<open>Properties of process\_link\_file\<close>

lemma process_link_file_returns:
  "\<exists>cid ok. fst (process_link_file w file_path s) = Inr (cid, ok)"
  by (cases "process_link_file_try w file_path s")
     (auto simp: process_link_file_def split: sum.splits)

section \<open>Retries, attempts and waits\<close>

lemma retry_step:
  assumes "fails_transiently (respond w url r)" and "r < MAX_RETRIES"
  shows "download_molecule w url p r s =
         download_molecule w url p (Suc r)
           (s\<lparr>trace := trace s @ [Sleep (delay w url r), Get url, Sleep (2 ^ r + jitter w url r)]\<rparr>)"
  using assms
  by (subst download_molecule_unfold)
     (auto simp: Let_def retry_or_fail_def sleep_def request_def
           split: attempt.splits exn.splits)

lemma retries_prefix:
  "r + k \<le> MAX_RETRIES \<Longrightarrow> (\<forall>i<k. fails_transiently (respond w url (r + i))) \<Longrightarrow>
   download_molecule w url p r s =
   download_molecule w url p (r + k) (s\<lparr>trace := trace s @ retry_events w url r k\<rparr>)"
proof (induction k arbitrary: r s)
  case 0
  then show ?case by simp
next
  case (Suc k)
  from Suc.prems have f0: "fails_transiently (respond w url r)" and lt: "r < MAX_RETRIES"
    by (auto dest: spec[of _ 0])
  from Suc.prems have rest: "\<forall>i<k. fails_transiently (respond w url (Suc r + i))"
    by (auto dest: spec[of _ "Suc _"])
  from Suc.prems have le: "Suc r + k \<le> MAX_RETRIES" by simp
  show ?case
    by (simp add: retry_step[OF f0 lt] Suc.IH[OF le rest])
qed

lemma last_attempt_fails:
  assumes "fails_transiently (respond w url r)" and "\<not> r < MAX_RETRIES"
  shows "download_molecule w url p r s =
         (Inr False, s\<lparr>trace := trace s @ [Sleep (delay w url r), Get url]\<rparr>)"
  using assms
  by (subst download_molecule_unfold)
     (auto simp: Let_def retry_or_fail_def sleep_def request_def
           split: attempt.splits exn.splits)

lemma attempt_succeeds:
  assumes "respond w url r = Response 200 chunks None" and "writable w p"
  shows "download_molecule w url p r s =
         (Inr True, s\<lparr>files := (files s)(p \<mapsto> concat chunks),
                       trace := trace s @ [Sleep (delay w url r), Get url]\<rparr>)"
  using assms
  by (subst download_molecule_unfold)
     (simp add: Let_def save_body_def sleep_def request_def write_chunks_concat)

lemma attempts_made_append [simp]:
  "attempts_made (xs @ ys) = attempts_made xs + attempts_made ys"
  by (simp add: attempts_made_def)

lemma attempts_made_simps [simp]:
  "attempts_made [] = 0"
  "attempts_made (Get url # evs) = Suc (attempts_made evs)"
  "attempts_made (Sleep d # evs) = attempts_made evs"
  by (simp_all add: attempts_made_def)

lemma attempts_made_retry_events [simp]: "attempts_made (retry_events w url r k) = k"
  by (induction k arbitrary: r) simp_all

lemma total_sleep_append [simp]: "total_sleep (xs @ ys) = total_sleep xs + total_sleep ys"
  by (induction xs rule: total_sleep.induct) simp_all




lemma all_attempts_fail:
  assumes "\<forall>k\<le>MAX_RETRIES. fails_transiently (respond w url k)"
  shows "download_molecule w url p 0 s =
         (Inr False, s\<lparr>trace := trace s @ retry_events w url 0 MAX_RETRIES
                                  @ [Sleep (delay w url MAX_RETRIES), Get url]\<rparr>)"
proof -
  have "download_molecule w url p 0 s =
        download_molecule w url p (0 + MAX_RETRIES)
          (s\<lparr>trace := trace s @ retry_events w url 0 MAX_RETRIES\<rparr>)"
    using assms by (intro retries_prefix) simp_all
  also have "\<dots> = (Inr False, s\<lparr>trace := trace s @ retry_events w url 0 MAX_RETRIES
                                  @ [Sleep (delay w url MAX_RETRIES), Get url]\<rparr>)"
    using assms by (simp add: last_attempt_fails)
  finally show ?thesis .
qed

lemma success_after_failures:
  assumes "k \<le> MAX_RETRIES" and "\<forall>i<k. fails_transiently (respond w url i)"
    and "respond w url k = Response 200 chunks None" and "writable w p"
  shows "download_molecule w url p 0 s =
         (Inr True, s\<lparr>files := (files s)(p \<mapsto> concat chunks),
                       trace := trace s @ retry_events w url 0 k
                                @ [Sleep (delay w url k), Get url]\<rparr>)"
proof -
  have "download_molecule w url p 0 s =
        download_molecule w url p (0 + k) (s\<lparr>trace := trace s @ retry_events w url 0 k\<rparr>)"
    using assms by (intro retries_prefix) simp_all
  also have "\<dots> = (Inr True, s\<lparr>files := (files s)(p \<mapsto> concat chunks),
                       trace := trace s @ retry_events w url 0 k
                                @ [Sleep (delay w url k), Get url]\<rparr>)"
    using assms by (simp add: attempt_succeeds)
  finally show ?thesis .
qed

section \<open>Exhausted retries\<close>



section \<open>Backoff\<close>




section \<open>Status 404\<close>

text \<open>
  C4, as stated (a 404 ends the fetch without any backoff or retry), does not hold: with
  a server that answers 404 every time, the fetch makes four requests and waits three
  backoff delays between them.
\<close>

theorem not_found_retried_counterexample:
  "respond (const_world (Response 404 [] None)) ''u'' 0 = Response 404 [] None \<and>
   trace (snd (download_molecule (const_world (Response 404 [] None)) ''u'' ''p'' 0 no_files)) =
     [Sleep 1, Get ''u'', Sleep (3 / 2), Sleep 1, Get ''u'', Sleep (5 / 2),
      Sleep 1, Get ''u'', Sleep (9 / 2), Sleep 1, Get ''u''] \<and>
   attempts_made (trace (snd (download_molecule (const_world (Response 404 [] None))
      ''u'' ''p'' 0 no_files))) \<noteq> 1"
proof -
  have "\<forall>k\<le>MAX_RETRIES. fails_transiently (respond (const_world (Response 404 [] None)) ''u'' k)"
    by (simp add: const_world_def)
  from all_attempts_fail[OF this, of "''p''" no_files] show ?thesis
    by (simp add: const_world_def no_files_def MAX_RETRIES_def numeral_3_eq_3)
qed

text \<open>
  C4, amended. A response with any status other than 200, 404 included, is handled in one
  way: while \<open>retries < MAX_RETRIES\<close> the fetch waits \<open>2 ^ retries + jitter\<close> and
  tries again with \<open>retries + 1\<close>; once \<open>retries\<close> has reached \<open>MAX_RETRIES\<close> it
  returns \<open>False\<close>. The destination file is not touched.
\<close>

theorem non_success_status_is_retried:
  assumes "respond w url r = Response code chunks ending" and "code \<noteq> 200"
  shows "(r < MAX_RETRIES \<longrightarrow>
            download_molecule w url p r s =
            download_molecule w url p (Suc r)
              (s\<lparr>trace := trace s @ [Sleep (delay w url r), Get url,
                                       Sleep (2 ^ r + jitter w url r)]\<rparr>)) \<and>
         (\<not> r < MAX_RETRIES \<longrightarrow>
            download_molecule w url p r s =
            (Inr False, s\<lparr>trace := trace s @ [Sleep (delay w url r), Get url]\<rparr>))"
  using assms by (simp add: retry_step last_attempt_fails)

theorem non_success_status_is_retried_witness:
  "respond (seq_world [Response 404 [] None] (Response 200 [''ab''] None)) ''u'' 0
     = Response 404 [] None \<and> (404::int) \<noteq> 200 \<and> 0 < MAX_RETRIES \<and>
   download_molecule (seq_world [Response 404 [] None] (Response 200 [''ab''] None)) ''u'' ''p'' 0 no_files =
   download_molecule (seq_world [Response 404 [] None] (Response 200 [''ab''] None)) ''u'' ''p'' (Suc 0)
     (no_files\<lparr>trace := [Sleep 1, Get ''u'', Sleep (3 / 2)]\<rparr>)"
proof -
  let ?w = "seq_world [Response 404 [] None] (Response 200 [''ab''] None)"
  have h1: "respond ?w ''u'' 0 = Response 404 [] None" by (simp add: seq_world_def)
  have h2: "(404::int) \<noteq> 200" by simp
  have h3: "0 < MAX_RETRIES" by (simp add: MAX_RETRIES_def)
  from non_success_status_is_retried[OF h1 h2, of "''p''" no_files] h3
  have "download_molecule ?w ''u'' ''p'' 0 no_files =
        download_molecule ?w ''u'' ''p'' (Suc 0)
          (no_files\<lparr>trace := [Sleep 1, Get ''u'', Sleep (3 / 2)]\<rparr>)"
    by (simp add: seq_world_def no_files_def)
  with h1 h2 h3 show ?thesis by blast
qed

section \<open>Validation of the downloaded file\<close>

lemma output_path_of_unfold:
  "path_join OUTPUT_DIRECTORY (splitext_root (basename fp) @ ''.mol'') = output_path_of fp"
  by (simp add: output_path_of_def)

lemma process_link_file_fetch:
  assumes "files s fp = Some content" and "strip content \<noteq> []"
    and "download_molecule w (strip content) (output_path_of fp) 0 s = (Inr b, s1)"
  shows "process_link_file w fp s =
           (if b \<and> (\<exists>c. files s1 (output_path_of fp) = Some c \<and> c \<noteq> [])
            then (Inr (splitext_root (basename fp), True), s1)
            else if files s1 (output_path_of fp) = Some []
              then (Inr (splitext_root (basename fp), False), remove (output_path_of fp) s1)
              else (Inr (splitext_root (basename fp), False), s1))"
  using assms
  by (auto simp: process_link_file_def process_link_file_try_def Let_def output_path_of_unfold
                 path_exists_def getsize_def split: option.splits)

lemma process_link_file_no_fetch:
  assumes "files s fp = None \<or> (\<exists>content. files s fp = Some content \<and> strip content = [])"
  shows "snd (process_link_file w fp s) = s"
  using assms
  by (auto simp: process_link_file_def process_link_file_try_def Let_def split: option.splits)

lemma demo_strip: "strip (''http://x/c1.mol'' @ [CHR 0x0A]) = ''http://x/c1.mol''"
  by (simp add: strip_def is_space_def)

lemma demo_compound_id: "splitext_root (basename ''c1.txt'') = ''c1''"
  by (simp add: splitext_root_def basename_def drop_drive_def is_sep_def bslash_def)

section \<open>What is left at the destination\<close>


lemma unwritable_destination:
  assumes "respond w url r = Response 200 chunks ending" and "\<not> writable w p"
  shows "download_molecule w url p r s =
           (Inr False, s\<lparr>trace := trace s @ [Sleep (delay w url r), Get url]\<rparr>)"
  using assms
  by (subst download_molecule_unfold)
     (simp add: Let_def save_body_def sleep_def request_def)

lemma no_200_keeps_files:
  "r \<le> MAX_RETRIES \<Longrightarrow> (\<forall>k. r \<le> k \<and> k \<le> MAX_RETRIES \<longrightarrow> \<not> got_200 (respond w url k)) \<Longrightarrow>
   files (snd (download_molecule w url p r s)) = files s"
proof (induction "MAX_RETRIES - r" arbitrary: r s)
  case 0
  then have "\<not> r < MAX_RETRIES" and "\<not> got_200 (respond w url r)" by simp_all
  then show ?case
    by (subst download_molecule_unfold)
       (auto simp: Let_def retry_or_fail_def sleep_def request_def
             split: attempt.splits exn.splits)
next
  case (Suc n)
  then have lt: "r < MAX_RETRIES" and n: "n = MAX_RETRIES - Suc r" by simp_all
  from Suc.prems have now: "\<not> got_200 (respond w url r)" by simp
  from Suc.prems have later: "\<forall>k. Suc r \<le> k \<and> k \<le> MAX_RETRIES \<longrightarrow> \<not> got_200 (respond w url k)"
    by simp
  have IH: "files (snd (download_molecule w url p (Suc r) s')) = files s'" for s'
    using Suc.hyps(1)[OF n _ later] lt by simp
  show ?case using now lt
    by (subst download_molecule_unfold)
       (auto simp: Let_def retry_or_fail_def sleep_def request_def IH
             split: attempt.splits exn.splits)
qed

lemma process_link_file_keeps:
  assumes "files s fp = Some content"
    and "files (snd (download_molecule w (strip content) (output_path_of fp) 0 s))
           (output_path_of fp) = Some old"
    and "old \<noteq> []" and "files s (output_path_of fp) = Some old"
  shows "files (snd (process_link_file w fp s)) (output_path_of fp) = Some old"
proof (cases "strip content = []")
  case True
  with assms(1) have "snd (process_link_file w fp s) = s"
    by (intro process_link_file_no_fetch) simp
  with assms(4) show ?thesis by simp
next
  case False
  obtain r s1 where d: "download_molecule w (strip content) (output_path_of fp) 0 s = (r, s1)"
    by (cases "download_molecule w (strip content) (output_path_of fp) 0 s")
  with download_molecule_returns[of w "strip content" "output_path_of fp" 0 s]
  obtain b where r: "r = Inr b" by auto
  from d assms(2) have f: "files s1 (output_path_of fp) = Some old" by simp
  show ?thesis
    using f assms(3)
    by (simp add: process_link_file_fetch[OF assms(1) False d[unfolded r]])
qed

lemma demo_output_path_differs: "output_path_of ''c1.txt'' \<noteq> ''c1.txt''"
  by (simp add: output_path_of_def path_join_def OUTPUT_DIRECTORY_def)




text \<open>
  C9. Let the destination of an item hold a non-empty file. If processing the item again
  either ends with a complete 200 response carrying the same bytes (after any number of
  failed attempts), or never receives status 200 on any attempt, then the destination
  holds the same content afterwards.
\<close>

theorem valid_artifact_survives_refetch:
  assumes "files s fp = Some content"
    and "files s (output_path_of fp) = Some old" and "old \<noteq> []"
    and "(\<exists>K chunks. K \<le> MAX_RETRIES \<and>
            (\<forall>i<K. fails_transiently (respond w (strip content) i)) \<and>
            respond w (strip content) K = Response 200 chunks None \<and> concat chunks = old)
         \<or> (\<forall>k\<le>MAX_RETRIES. \<not> got_200 (respond w (strip content) k))"
  shows "files (snd (process_link_file w fp s)) (output_path_of fp) = Some old"
proof -
  let ?url = "strip content" and ?out = "output_path_of fp"
  have "files (snd (download_molecule w ?url ?out 0 s)) ?out = Some old"
    using assms(4)
  proof (elim disjE exE conjE)
    fix K chunks
    assume K: "K \<le> MAX_RETRIES" and fails: "\<forall>i<K. fails_transiently (respond w ?url i)"
      and ok: "respond w ?url K = Response 200 chunks None" and same: "concat chunks = old"
    show ?thesis
    proof (cases "writable w ?out")
      case True
      from success_after_failures[OF K fails ok True, of s] same show ?thesis by simp
    next
      case False
      have "download_molecule w ?url ?out 0 s =
            download_molecule w ?url ?out (0 + K) (s\<lparr>trace := trace s @ retry_events w ?url 0 K\<rparr>)"
        using K fails by (intro retries_prefix) simp_all
      with unwritable_destination[OF ok False] assms(2) show ?thesis by simp
    qed
  next
    assume "\<forall>k\<le>MAX_RETRIES. \<not> got_200 (respond w ?url k)"
    then have "files (snd (download_molecule w ?url ?out 0 s)) = files s"
      by (intro no_200_keeps_files) simp_all
    with assms(2) show ?thesis by simp
  qed
  then show ?thesis
    using assms(1,2,3) by (intro process_link_file_keeps)
qed

theorem valid_artifact_survives_refetch_witness:
  "files (snd (process_link_file (const_world (Response 404 [] None)) ''c1.txt''
          (with_artifact ''c1.txt'' (''http://x/c1.mol'' @ [CHR 0x0A]) ''abc'')))
     (output_path_of ''c1.txt'') = Some ''abc'' \<and>
   files (snd (process_link_file (seq_world [GetRaises RequestException]
             (Response 200 [''ab'', ''c''] None)) ''c1.txt''
          (with_artifact ''c1.txt'' (''http://x/c1.mol'' @ [CHR 0x0A]) ''abc'')))
     (output_path_of ''c1.txt'') = Some ''abc''"
proof -
  let ?c = "''http://x/c1.mol'' @ [CHR 0x0A]"
  let ?s = "with_artifact ''c1.txt'' ?c ''abc''"
  let ?w1 = "const_world (Response 404 [] None)"
  let ?w2 = "seq_world [GetRaises RequestException] (Response 200 [''ab'', ''c''] None)"
  have h1: "files ?s ''c1.txt'' = Some ?c" by (simp add: with_artifact_def)
  have h2: "files ?s (output_path_of ''c1.txt'') = Some ''abc''"
    using demo_output_path_differs by (simp add: with_artifact_def)
  have h3: "''abc'' \<noteq> []" by simp
  have never: "\<forall>k\<le>MAX_RETRIES. \<not> got_200 (respond ?w1 (strip ?c) k)"
    by (simp add: const_world_def)
  have same: "Suc 0 \<le> MAX_RETRIES \<and>
      (\<forall>i<Suc 0. fails_transiently (respond ?w2 (strip ?c) i)) \<and>
      respond ?w2 (strip ?c) (Suc 0) = Response 200 [''ab'', ''c''] None \<and>
      concat [''ab'', ''c''] = ''abc''"
    by (simp add: seq_world_def MAX_RETRIES_def)
  have a: "files (snd (process_link_file ?w1 ''c1.txt'' ?s)) (output_path_of ''c1.txt'')
             = Some ''abc''"
    using never by (intro valid_artifact_survives_refetch[OF h1 h2 h3]) blast
  have b: "files (snd (process_link_file ?w2 ''c1.txt'' ?s)) (output_path_of ''c1.txt'')
             = Some ''abc''"
    using same by (intro valid_artifact_survives_refetch[OF h1 h2 h3]) blast
  from a b show ?thesis by simp
qed

section \<open>The run and its summary\<close>

lemma outcomes_paths: "map fst (outcomes w fs s) = fs"
  by (induction fs arbitrary: s) (auto split: prod.splits)

lemma collect_counts:
  "collect w fs (a, b, s) = (a', b', s') \<Longrightarrow>
   a' = a + length (filter snd (outcomes w fs s)) \<and>
   b' = b + length (filter (\<lambda>x. \<not> snd x) (outcomes w fs s))"
proof (induction fs arbitrary: a b s)
  case Nil
  then show ?case by simp
next
  case (Cons fp fs)
  obtain r s1 where p: "process_link_file w fp s = (r, s1)"
    by (cases "process_link_file w fp s")
  show ?case
  proof (cases r)
    case (Inl e)
    with Cons.prems p have "collect w fs (a, b + 1, s1) = (a', b', s')" by simp
    from Cons.IH[OF this] Inl p show ?thesis by simp
  next
    case (Inr v)
    obtain cid ok where v: "v = (cid, ok)" by (cases v)
    show ?thesis
    proof (cases ok)
      case True
      with Cons.prems p Inr v have "collect w fs (a + 1, b, s1) = (a', b', s')" by simp
      from Cons.IH[OF this] Inr v True p show ?thesis by simp
    next
      case False
      with Cons.prems p Inr v have "collect w fs (a, b + 1, s1) = (a', b', s')" by simp
      from Cons.IH[OF this] Inr v False p show ?thesis by simp
    qed
  qed
qed

lemma filter_split_length:
  "length (filter P xs) + length (filter (\<lambda>x. \<not> P x) xs) = length xs"
  by (induction xs) auto

lemma link_files_of_ensure [simp]:
  "link_files_of (ensure_directory_exists d s) names = link_files_of s names"
  by (simp add: link_files_of_def isfile_def ensure_directory_exists_def)

lemma ensure_directory_exists_frame [simp]:
  "files (ensure_directory_exists d s) = files s"
  "trace (ensure_directory_exists d s) = trace s"
  by (simp_all add: ensure_directory_exists_def)

lemma demo_link_path_id:
  "splitext_root (basename (path_join LINKS_DIRECTORY ''c1.txt'')) = ''c1''"
  by (simp add: splitext_root_def basename_def drop_drive_def is_sep_def bslash_def
                path_join_def LINKS_DIRECTORY_def)

text \<open>
  C3, as stated (for every set of \<open>N\<close> link files a summary is persisted afterwards),
  does not hold for \<open>N = 0\<close>: with an empty directory \<open>main\<close> returns before the
  loop and no summary file exists afterwards.
\<close>

theorem empty_run_counterexample:
  "listdir (listing_world (Some []) (Response 200 [''ab''] None)) LINKS_DIRECTORY = Some [] \<and>
   fst (main (listing_world (Some []) (Response 200 [''ab''] None)) no_files) = NoLinkFiles \<and>
   files (snd (main (listing_world (Some []) (Response 200 [''ab''] None)) no_files)) summary_path
     = None"
  by (simp add: main_def Let_def listing_world_def no_files_def link_files_of_def
                ensure_directory_exists_def)

text \<open>
  C3, amended. For every set of \<open>N \<ge> 1\<close> link files, \<open>main\<close> sees exactly one
  result per link file, counts each either as a success or as a failure, so that
  \<open>successful_downloads + failed_downloads = N\<close>; and afterwards, when the summary file
  can be opened for writing, the summary file holds exactly the three counts: total,
  succeeded, failed.
\<close>

theorem one_outcome_per_file:
  assumes "listdir w LINKS_DIRECTORY = Some names" and "link_files_of s names \<noteq> []"
  shows "\<exists>succeeded failed.
           fst (main w s) = Completed (length (link_files_of s names)) succeeded failed \<and>
           succeeded + failed = length (link_files_of s names) \<and>
           map fst (outcomes w (link_files_of s names)
                      (ensure_directory_exists OUTPUT_DIRECTORY s)) = link_files_of s names \<and>
           succeeded = length (filter snd (outcomes w (link_files_of s names)
                      (ensure_directory_exists OUTPUT_DIRECTORY s))) \<and>
           failed = length (filter (\<lambda>x. \<not> snd x) (outcomes w (link_files_of s names)
                      (ensure_directory_exists OUTPUT_DIRECTORY s))) \<and>
           (writable w summary_path \<longrightarrow>
              files (snd (main w s)) summary_path =
                Some (summary_text (length (link_files_of s names)) succeeded failed))"
proof -
  let ?s = "ensure_directory_exists OUTPUT_DIRECTORY s"
  let ?fs = "link_files_of s names"
  obtain a b s1 where c: "collect w ?fs (0, 0, ?s) = (a, b, s1)"
    by (cases "collect w ?fs (0, 0, ?s)")
  from collect_counts[OF c]
  have a: "a = length (filter snd (outcomes w ?fs ?s))"
    and b: "b = length (filter (\<lambda>x. \<not> snd x) (outcomes w ?fs ?s))" by simp_all
  have len: "length (outcomes w ?fs ?s) = length ?fs"
    using outcomes_paths[of w ?fs ?s] by (metis length_map)
  have sum: "a + b = length ?fs"
    using filter_split_length[of snd "outcomes w ?fs ?s"] a b len by simp
  have m: "main w s = (Completed (length ?fs) a b, write_summary w (length ?fs) a b s1)"
    using assms c by (simp add: main_def Let_def)
  show ?thesis
    using a b sum m outcomes_paths[of w ?fs ?s]
    by (intro exI[of _ a] exI[of _ b]) (simp add: write_summary_def)
qed

theorem one_outcome_per_file_witness:
  "fst (main (listing_world (Some [''c1.txt'', ''notes.md'']) (Response 200 [''ab'', ''c''] None))
          (one_link (path_join LINKS_DIRECTORY ''c1.txt'') (''http://x/c1.mol'' @ [CHR 0x0A])))
     = Completed 1 1 0 \<and>
   files (snd (main (listing_world (Some [''c1.txt'', ''notes.md''])
                       (Response 200 [''ab'', ''c''] None))
          (one_link (path_join LINKS_DIRECTORY ''c1.txt'') (''http://x/c1.mol'' @ [CHR 0x0A]))))
       summary_path = Some (summary_text 1 1 0)"
proof -
  let ?w = "listing_world (Some [''c1.txt'', ''notes.md'']) (Response 200 [''ab'', ''c''] None)"
  let ?c = "''http://x/c1.mol'' @ [CHR 0x0A]"
  let ?fp = "path_join LINKS_DIRECTORY ''c1.txt''"
  let ?s = "one_link ?fp ?c"
  let ?s' = "ensure_directory_exists OUTPUT_DIRECTORY ?s"
  have h1: "listdir ?w LINKS_DIRECTORY = Some [''c1.txt'', ''notes.md'']"
    by (simp add: listing_world_def)
  have fs: "link_files_of ?s [''c1.txt'', ''notes.md''] = [?fp]"
    by (simp add: link_files_of_def endswith_def isfile_def one_link_def)
  then have h2: "link_files_of ?s [''c1.txt'', ''notes.md''] \<noteq> []" by simp
  have f: "files ?s' ?fp = Some ?c" by (simp add: one_link_def)
  have u: "strip ?c \<noteq> []" by (simp only: demo_strip) simp
  have r: "respond ?w (strip ?c) 0 = Response 200 [''ab'', ''c''] None"
    by (simp add: listing_world_def)
  have wr: "writable ?w p" for p by (simp add: listing_world_def)
  have p: "fst (process_link_file ?w ?fp ?s') = Inr (''c1'', True)"
    using process_link_file_fetch[OF f u attempt_succeeds[OF r wr]]
    by (simp add: demo_link_path_id)
  have o: "outcomes ?w [?fp] ?s' = [(?fp, True)]"
    using p by (cases "process_link_file ?w ?fp ?s'") simp
  from one_outcome_per_file[OF h1 h2, unfolded fs o] wr[of summary_path] show ?thesis
    by auto
qed

text \<open>
  C10. When \<open>os.listdir\<close> raises, and when it succeeds but no entry is a \<open>.txt\<close> file,
  \<open>main\<close> returns before any link file is processed: no request is made and no file
  is written, so no \<open>download_summary.txt\<close> comes into existence.
\<close>

theorem no_summary_without_link_files:
  "(listdir w LINKS_DIRECTORY = None \<longrightarrow>
      fst (main w s) = SetupError \<and> files (snd (main w s)) = files s \<and>
      trace (snd (main w s)) = trace s) \<and>
   (\<forall>names. listdir w LINKS_DIRECTORY = Some names \<and> link_files_of s names = [] \<longrightarrow>
      fst (main w s) = NoLinkFiles \<and> files (snd (main w s)) = files s \<and>
      trace (snd (main w s)) = trace s)"
  by (auto simp: main_def Let_def)

theorem no_summary_without_link_files_witness:
  "fst (main (listing_world None (Response 200 [''ab''] None)) no_files) = SetupError \<and>
   files (snd (main (listing_world None (Response 200 [''ab''] None)) no_files)) summary_path
     = None \<and>
   fst (main (listing_world (Some [''notes.md'', ''c1.mol'']) (Response 200 [''ab''] None))
          no_files) = NoLinkFiles \<and>
   files (snd (main (listing_world (Some [''notes.md'', ''c1.mol'']) (Response 200 [''ab''] None))
          no_files)) summary_path = None"
proof -
  let ?a = "Response 200 [''ab''] None"
  have h1: "listdir (listing_world None ?a) LINKS_DIRECTORY = None"
    by (simp add: listing_world_def)
  have h2: "listdir (listing_world (Some [''notes.md'', ''c1.mol'']) ?a) LINKS_DIRECTORY
              = Some [''notes.md'', ''c1.mol'']"
    by (simp add: listing_world_def)
  have h3: "link_files_of no_files [''notes.md'', ''c1.mol''] = []"
    by (simp add: link_files_of_def endswith_def)
  have e: "files no_files summary_path = None" by (simp add: no_files_def)
  from no_summary_without_link_files[of "listing_world None ?a" no_files] h1 e
  have a: "fst (main (listing_world None ?a) no_files) = SetupError \<and>
           files (snd (main (listing_world None ?a) no_files)) summary_path = None"
    by simp
  from no_summary_without_link_files[of "listing_world (Some [''notes.md'', ''c1.mol'']) ?a"
         no_files] h2 h3 e
  have b: "fst (main (listing_world (Some [''notes.md'', ''c1.mol'']) ?a) no_files) = NoLinkFiles \<and>
           files (snd (main (listing_world (Some [''notes.md'', ''c1.mol'']) ?a) no_files))
             summary_path = None"
    by simp
  from a b show ?thesis by simp
qed

section \<open>Error containment\<close>

lemma strip_only_spaces: "strip [CHR 0xA0, CHR 0x0A] = []" "strip [CHR 0x85, CHR 0x20] = []"
  by (simp_all add: strip_def is_space_def)

lemma unexpected_error_fails:
  assumes "respond w url r = GetRaises OtherException"
  shows "download_molecule w url p r s =
           (Inr False, s\<lparr>trace := trace s @ [Sleep (delay w url r), Get url]\<rparr>)"
  using assms
  by (subst download_molecule_unfold) (simp add: Let_def sleep_def request_def)

lemma download_true_needs_200:
  "fst (download_molecule w url p r s) = Inr True \<Longrightarrow>
   \<exists>k chunks. r \<le> k \<and> (k = r \<or> k \<le> MAX_RETRIES) \<and>
              respond w url k = Response 200 chunks None \<and> writable w p"
proof (induction "MAX_RETRIES - r" arbitrary: r s)
  case 0
  then have nr: "\<not> r < MAX_RETRIES" by simp
  from "0.prems" nr show ?case
    by (subst (asm) download_molecule_unfold)
       (auto simp: Let_def retry_or_fail_def save_body_def
             split: attempt.splits exn.splits option.splits if_splits)
next
  case (Suc n)
  then have lt: "r < MAX_RETRIES" and n: "n = MAX_RETRIES - Suc r" by simp_all
  have IH: "\<exists>k chunks. r \<le> k \<and> (k = r \<or> k \<le> MAX_RETRIES) \<and>
              respond w url k = Response 200 chunks None \<and> writable w p"
    if "fst (download_molecule w url p (Suc r) s') = Inr True" for s'
  proof -
    from Suc.hyps(1)[OF n that] obtain k chunks where
      "Suc r \<le> k" "k = Suc r \<or> k \<le> MAX_RETRIES"
      "respond w url k = Response 200 chunks None" "writable w p" by blast
    with lt show ?thesis by (intro exI[of _ k] exI[of _ chunks]) auto
  qed
  from Suc.prems lt
  have "(\<exists>chunks. respond w url r = Response 200 chunks None \<and> writable w p) \<or>
        (\<exists>s'. fst (download_molecule w url p (Suc r) s') = Inr True)"
    by (subst (asm) download_molecule_unfold)
       (auto simp: Let_def retry_or_fail_def save_body_def
             split: attempt.splits exn.splits option.splits if_splits)
  then show ?case
  proof
    assume "\<exists>chunks. respond w url r = Response 200 chunks None \<and> writable w p"
    then show ?thesis by blast
  next
    assume "\<exists>s'. fst (download_molecule w url p (Suc r) s') = Inr True"
    then show ?thesis using IH by blast
  qed
qed

lemma process_link_file_unreadable:
  "files s fp = None \<Longrightarrow> process_link_file w fp s = (Inr (basename fp, False), s)"
  by (simp add: process_link_file_def process_link_file_try_def Let_def)

lemma process_link_file_blank:
  "files s fp = Some content \<Longrightarrow> strip content = [] \<Longrightarrow>
   process_link_file w fp s = (Inr (splitext_root (basename fp), False), s)"
  by (simp add: process_link_file_def process_link_file_try_def Let_def)

lemma process_link_file_true:
  assumes "fst (process_link_file w fp s) = Inr (cid, True)"
  shows "\<exists>content. files s fp = Some content \<and> strip content \<noteq> [] \<and>
           fst (download_molecule w (strip content) (output_path_of fp) 0 s) = Inr True"
proof (cases "files s fp")
  case None
  with assms show ?thesis by (simp add: process_link_file_unreadable)
next
  case (Some content)
  show ?thesis
  proof (cases "strip content = []")
    case True
    with Some assms show ?thesis by (simp add: process_link_file_blank)
  next
    case False
    obtain r s1 where d: "download_molecule w (strip content) (output_path_of fp) 0 s = (r, s1)"
      by (cases "download_molecule w (strip content) (output_path_of fp) 0 s")
    with download_molecule_returns[of w "strip content" "output_path_of fp" 0 s]
    obtain b where r: "r = Inr b" by auto
    from assms have "b"
      by (simp add: process_link_file_fetch[OF Some False d[unfolded r]] split: if_splits)
    with Some False d r show ?thesis by simp
  qed
qed

lemma nbsp_link_file_not_fetched:
  "process_link_file w ''c1.txt'' (one_link ''c1.txt'' [CHR 0xA0, CHR 0x0A]) =
     (Inr (''c1'', False), one_link ''c1.txt'' [CHR 0xA0, CHR 0x0A])"
  using process_link_file_blank[of "one_link ''c1.txt'' [CHR 0xA0, CHR 0x0A]" "''c1.txt''"
          "[CHR 0xA0, CHR 0x0A]" w]
  by (simp add: one_link_def strip_only_spaces demo_compound_id)

text \<open>
  C5. Neither \<open>download_molecule\<close> nor \<open>process_link_file\<close> ever raises to its
  caller, and every failure becomes a failure result of the item:
  \<^item> \<open>download_molecule\<close> always returns a truth value, and it returns \<open>True\<close> only
    when one of its attempts received status 200 with a complete body and the destination
    could be opened; so every other course of events, an unexpected exception included,
    ends in \<open>False\<close>;
  \<^item> an unexpected exception of \<open>requests.get\<close> ends the fetch at once with
    \<open>False\<close>;
  \<^item> \<open>process_link_file\<close> always returns a pair, and its flag is \<open>True\<close> only when
    the link file was read, held a URL and \<open>download_molecule\<close> returned \<open>True\<close>;
  \<^item> a link file that cannot be read gives \<open>(basename, False)\<close> and changes nothing.
\<close>

theorem fetch_never_raises:
  "(\<exists>b. fst (download_molecule w url p retries s) = Inr b \<and>
        (b \<longrightarrow> (\<exists>k chunks. retries \<le> k \<and> (k = retries \<or> k \<le> MAX_RETRIES) \<and>
                 respond w url k = Response 200 chunks None \<and> writable w p))) \<and>
   (respond w url retries = GetRaises OtherException \<longrightarrow>
      download_molecule w url p retries s =
        (Inr False, s\<lparr>trace := trace s @ [Sleep (delay w url retries), Get url]\<rparr>)) \<and>
   (\<exists>cid ok. fst (process_link_file w fp t) = Inr (cid, ok) \<and>
        (ok \<longrightarrow> (\<exists>content. files t fp = Some content \<and> strip content \<noteq> [] \<and>
                 fst (download_molecule w (strip content) (output_path_of fp) 0 t) = Inr True))) \<and>
   (files t fp = None \<longrightarrow> process_link_file w fp t = (Inr (basename fp, False), t))"
proof (intro conjI impI)
  from download_molecule_returns[of w url p retries s]
  obtain b where b: "fst (download_molecule w url p retries s) = Inr b" by blast
  show "\<exists>b. fst (download_molecule w url p retries s) = Inr b \<and>
        (b \<longrightarrow> (\<exists>k chunks. retries \<le> k \<and> (k = retries \<or> k \<le> MAX_RETRIES) \<and>
                 respond w url k = Response 200 chunks None \<and> writable w p))"
    using b download_true_needs_200[of w url p retries s] by (intro exI[of _ b]) auto
next
  assume "respond w url retries = GetRaises OtherException"
  then show "download_molecule w url p retries s =
        (Inr False, s\<lparr>trace := trace s @ [Sleep (delay w url retries), Get url]\<rparr>)"
    by (rule unexpected_error_fails)
next
  from process_link_file_returns[of w fp t]
  obtain cid ok where r: "fst (process_link_file w fp t) = Inr (cid, ok)" by blast
  show "\<exists>cid ok. fst (process_link_file w fp t) = Inr (cid, ok) \<and>
        (ok \<longrightarrow> (\<exists>content. files t fp = Some content \<and> strip content \<noteq> [] \<and>
                 fst (download_molecule w (strip content) (output_path_of fp) 0 t) = Inr True))"
    using r process_link_file_true[of w fp t cid]
    by (intro exI[of _ cid] exI[of _ ok]) auto
next
  assume "files t fp = None"
  then show "process_link_file w fp t = (Inr (basename fp, False), t)"
    by (rule process_link_file_unreadable)
qed

lemma demo_basename: "basename ''a.txt'' = ''a.txt''"
  by (simp add: basename_def drop_drive_def is_sep_def bslash_def)

theorem fetch_never_raises_witness:
  "download_molecule (const_world (GetRaises OtherException)) ''u'' ''p'' 0 no_files =
     (Inr False, no_files\<lparr>trace := [Sleep 1, Get ''u'']\<rparr>) \<and>
   fst (download_molecule (unwritable_world (Response 200 [''ab''] None)) ''u'' ''p'' 0 no_files)
     = Inr False \<and>
   process_link_file (const_world (GetRaises OtherException)) ''a.txt'' no_files =
     (Inr (''a.txt'', False), no_files)"
proof -
  let ?w = "const_world (GetRaises OtherException)"
  let ?u = "unwritable_world (Response 200 [''ab''] None)"
  have h1: "respond ?w ''u'' 0 = GetRaises OtherException" by (simp add: const_world_def)
  have h2: "files no_files ''a.txt'' = None" by (simp add: no_files_def)
  have h3: "\<not> writable ?u ''p''" by (simp add: unwritable_world_def)
  from fetch_never_raises[of ?w "''u''" "''p''" 0 no_files "''a.txt''" no_files] h1 h2
  have a: "download_molecule ?w ''u'' ''p'' 0 no_files =
             (Inr False, no_files\<lparr>trace := [Sleep 1, Get ''u'']\<rparr>)"
    and c: "process_link_file ?w ''a.txt'' no_files = (Inr (''a.txt'', False), no_files)"
    by (simp_all add: const_world_def no_files_def demo_basename)
  from fetch_never_raises[of ?u "''u''" "''p''" 0 no_files "''a.txt''" no_files] h3
  have b: "fst (download_molecule ?u ''u'' ''p'' 0 no_files) = Inr False"
    by auto
  from a b c show ?thesis by simp
qed

section \<open>A 200 response on the validated path\<close>







end
